theory Spec2Isabelle
  imports Main
begin

section \<open>Data model (types/models/adb.go)\<close>

text \<open>
  \<^verbatim>\<open>type DeviceState string\<close> with five string constants. The Go type is a string type, so the
  model keeps the strings: that the constants are pairwise different is a fact about them.
\<close>

type_synonym DeviceState = string

definition DeviceStateOffline :: DeviceState where
  "DeviceStateOffline = ''offline''"

definition DeviceStateBooting :: DeviceState where
  "DeviceStateBooting = ''booting''"

definition DeviceStateUnauthorized :: DeviceState where
  "DeviceStateUnauthorized = ''unauthorized''"

definition DeviceStateOnline :: DeviceState where
  "DeviceStateOnline = ''online''"

definition DeviceStateUnknown :: DeviceState where
  "DeviceStateUnknown = ''unknown''"

record Device =
  Serial :: string
  State :: DeviceState
  Model :: string
  Manufacturer :: string
  IsAuthorized :: bool

record Package =
  Name :: string
  ApkPath :: string
  IsSystem :: bool

record ListPackageOptions =
  IncludeSystem :: bool
  IncludeUninstalled :: bool

text \<open>\<^verbatim>\<open>time.Time\<close> is kept abstract as a number of nanoseconds.\<close>

type_synonym Time = int

record DeviceStateChange =
  Serial :: string
  OldState :: DeviceState
  NewState :: DeviceState
  Timestamp :: Time

section \<open>The transport (package goadb, imported as adb)\<close>

text \<open>
  The transport library is not part of the repository. Its raw device state is an
  integer-based enumeration; the code names four of its values. \<open>StateDisconnected\<close> is
  the fifth constant of the library and \<open>StateOther\<close> stands for every remaining value of
  the underlying integer type.
\<close>

datatype adb_DeviceState =
    StateInvalid
  | StateUnauthorized
  | StateDisconnected
  | StateOffline
  | StateOnline
  | StateOther

text \<open>A Go \<^verbatim>\<open>error\<close> value; \<^verbatim>\<open>nil\<close> is \<open>None\<close> of \<open>error option\<close>.\<close>

datatype error = Error string

text \<open>\<^verbatim>\<open>adb.DeviceInfo\<close>: the fields the code reads.\<close>

record DeviceInfo =
  Serial :: string
  Model :: string

text \<open>\<^verbatim>\<open>adb.DeviceStateChangedEvent\<close>, the element type of the device watcher's channel.\<close>

record DeviceStateChangedEvent =
  Serial :: string
  OldState :: adb_DeviceState
  NewState :: adb_DeviceState

text \<open>
  The calls the client makes on \<^verbatim>\<open>*adb.Adb\<close> and \<^verbatim>\<open>*adb.Device\<close>. A call returns a Go pair
  (value, error) and may change the transport, whose state \<open>'s\<close> is threaded through.
  \<open>'d option\<close> is a \<^verbatim>\<open>*adb.Device\<close>, \<open>None\<close> the nil pointer.
\<close>

record ('d, 's) Adb =
  ListDevices :: "'s \<Rightarrow> (DeviceInfo list \<times> error option) \<times> 's"
  DeviceWithSerial :: "string \<Rightarrow> 'd option"
  DeviceGetState :: "'d option \<Rightarrow> 's \<Rightarrow> (adb_DeviceState \<times> error option) \<times> 's"
  RunCommand :: "'d option \<Rightarrow> string \<Rightarrow> string list \<Rightarrow> 's \<Rightarrow> (string \<times> error option) \<times> 's"

section \<open>The Go standard library: strings and bufio.Scanner\<close>

text \<open>
  A Go string is a sequence of bytes, as \<open>string\<close> is here. The functions below follow
  the documented behaviour of package \<^verbatim>\<open>strings\<close>.
\<close>

definition HasPrefix :: "string \<Rightarrow> string \<Rightarrow> bool" where
  "HasPrefix s prefix = (take (length prefix) s = prefix)"

definition TrimPrefix :: "string \<Rightarrow> string \<Rightarrow> string" where
  "TrimPrefix s prefix = (if HasPrefix s prefix then drop (length prefix) s else s)"

fun Contains :: "string \<Rightarrow> string \<Rightarrow> bool" where
  "Contains [] substr = (substr = [])"
| "Contains (c # cs) substr = (HasPrefix (c # cs) substr \<or> Contains cs substr)"

text \<open>\<^verbatim>\<open>strings.LastIndex\<close>: the index of the last instance of \<open>substr\<close>, or \<open>-1\<close>.\<close>

fun LastIndex :: "string \<Rightarrow> string \<Rightarrow> int" where
  "LastIndex [] substr = (if substr = [] then 0 else - 1)"
| "LastIndex (c # cs) substr =
     (let r = LastIndex cs substr
      in if 0 \<le> r then r + 1 else if HasPrefix (c # cs) substr then 0 else - 1)"

text \<open>
  \<^verbatim>\<open>strings.TrimSpace\<close> removes the leading and the trailing white space as Unicode
  defines it (\<^verbatim>\<open>unicode.IsSpace\<close>). On the bytes of the string that is: the six ASCII
  space characters, and the UTF-8 encodings of U+0085, U+00A0, U+1680, U+2000 to U+200A,
  U+2028, U+2029, U+202F, U+205F and U+3000. A byte that does not start such an encoding
  stops the trimming, as an invalid or a non-space rune does in Go.
\<close>

definition asciiSpace :: "char \<Rightarrow> bool" where
  "asciiSpace c = (c \<in> {CHR 0x09, CHR 0x0A, CHR 0x0B, CHR 0x0C, CHR 0x0D, CHR 0x20})"

definition unicodeSpace :: "string list" where
  "unicodeSpace =
     [[CHR 0xC2, CHR 0x85], [CHR 0xC2, CHR 0xA0], [CHR 0xE1, CHR 0x9A, CHR 0x80],
      [CHR 0xE2, CHR 0x80, CHR 0x80], [CHR 0xE2, CHR 0x80, CHR 0x81],
      [CHR 0xE2, CHR 0x80, CHR 0x82], [CHR 0xE2, CHR 0x80, CHR 0x83],
      [CHR 0xE2, CHR 0x80, CHR 0x84], [CHR 0xE2, CHR 0x80, CHR 0x85],
      [CHR 0xE2, CHR 0x80, CHR 0x86], [CHR 0xE2, CHR 0x80, CHR 0x87],
      [CHR 0xE2, CHR 0x80, CHR 0x88], [CHR 0xE2, CHR 0x80, CHR 0x89],
      [CHR 0xE2, CHR 0x80, CHR 0x8A], [CHR 0xE2, CHR 0x80, CHR 0xA8],
      [CHR 0xE2, CHR 0x80, CHR 0xA9], [CHR 0xE2, CHR 0x80, CHR 0xAF],
      [CHR 0xE2, CHR 0x81, CHR 0x9F], [CHR 0xE3, CHR 0x80, CHR 0x80]]"

text \<open>
  \<open>dropSpaces encs s\<close> removes white space from the front of \<open>s\<close>; \<open>encs\<close> are the
  multi-byte encodings to remove (two or three bytes each).
\<close>

fun dropSpaces :: "string list \<Rightarrow> string \<Rightarrow> string" where
  "dropSpaces encs [] = []"
| "dropSpaces encs (c # cs) =
     (if asciiSpace c then dropSpaces encs cs
      else if take 2 (c # cs) \<in> set encs then dropSpaces encs (drop 1 cs)
      else if take 3 (c # cs) \<in> set encs then dropSpaces encs (drop 2 cs)
      else c # cs)"

definition TrimSpace :: "string \<Rightarrow> string" where
  "TrimSpace s = rev (dropSpaces (map rev unicodeSpace) (rev (dropSpaces unicodeSpace s)))"

text \<open>
  \<^verbatim>\<open>bufio.Scanner\<close> with the default split function \<^verbatim>\<open>ScanLines\<close>, reading from a string.
  A call of \<^verbatim>\<open>Scan()\<close> on the rest of the input gives the next line without its end-of-line
  marker (a newline, with one carriage return before it dropped), or ends the scan: at the
  end of the input with no error, and with \<^verbatim>\<open>ErrTooLong\<close> at a line that does not fit the
  buffer of \<^verbatim>\<open>MaxScanTokenSize\<close> bytes.
\<close>

definition MaxScanTokenSize :: nat where
  "MaxScanTokenSize = 64 * 1024"

definition ErrTooLong :: error where
  "ErrTooLong = Error ''bufio.Scanner: token too long''"

definition newline :: char where
  "newline = CHR 0x0A"

definition dropCR :: "string \<Rightarrow> string" where
  "dropCR data = (if data \<noteq> [] \<and> last data = CHR 0x0D then butlast data else data)"

datatype scan = Token string string | ScanEnd "error option"

definition Scan :: "string \<Rightarrow> scan" where
  "Scan input =
     (if input = [] then ScanEnd None
      else let line = takeWhile (\<lambda>c. c \<noteq> newline) input
           in if MaxScanTokenSize \<le> length line then ScanEnd (Some ErrTooLong)
              else Token (dropCR line) (drop (Suc (length line)) input))"

text \<open>
  The lines of a text, as \<^verbatim>\<open>ScanLines\<close> cuts it: at every newline, and a last line
  without a newline counts when it is not empty.
\<close>

fun textLines :: "string \<Rightarrow> string list" where
  "textLines [] = []"
| "textLines (c # cs) =
     (if c = newline then [] # textLines cs
      else (case textLines cs of [] \<Rightarrow> [[c]] | l # ls \<Rightarrow> (c # l) # ls))"

section \<open>State normalisation (adb-client.go, convertState)\<close>

fun convertState :: "adb_DeviceState \<Rightarrow> DeviceState" where
  "convertState StateOnline = DeviceStateOnline"
| "convertState StateOffline = DeviceStateOffline"
| "convertState StateUnauthorized = DeviceStateUnauthorized"
| "convertState _ = DeviceStateUnknown"

section \<open>Package listing (adb-client.go, packages)\<close>

definition getDevice :: "('d, 's) Adb \<Rightarrow> string \<Rightarrow> 'd option" where
  "getDevice client serial = DeviceWithSerial client serial"

text \<open>
  The body of the scanning loop: what the line \<^verbatim>\<open>scanner.Text()\<close> adds to \<^verbatim>\<open>packages\<close>;
  \<open>None\<close> is the \<^verbatim>\<open>continue\<close>. The slices \<^verbatim>\<open>line[:indexOfEqual]\<close> and
  \<^verbatim>\<open>line[indexOfEqual+1:]\<close> are in range, since the index comes from \<^verbatim>\<open>LastIndex\<close>.
\<close>

definition packageOfLine :: "string \<Rightarrow> Package option" where
  "packageOfLine text =
     (let line = TrimSpace text;
          indexOfEqual = LastIndex line ''=''
      in if line = '''' \<or> \<not> HasPrefix line ''package:'' \<or> indexOfEqual = - 1 then None
         else let pkgPath = TrimPrefix (take (nat indexOfEqual) line) ''package:'';
                  pkgName = TrimSpace (drop (nat (indexOfEqual + 1)) line)
              in Some \<lparr>Name = pkgName, ApkPath = pkgPath,
                        IsSystem = Contains pkgPath ''/system/''\<rparr>)"

text \<open>
  The loop \<^verbatim>\<open>for scanner.Scan() { ... }\<close> and the check of \<^verbatim>\<open>scanner.Err()\<close> after it:
  an error of the scanner returns \<^verbatim>\<open>nil\<close> and the error, whatever was collected.
\<close>

function scanPackages :: "string \<Rightarrow> Package list \<Rightarrow> Package list \<times> error option" where
  "scanPackages input packages =
     (case Scan input of
        ScanEnd None \<Rightarrow> (packages, None)
      | ScanEnd (Some err) \<Rightarrow> ([], Some err)
      | Token text rest \<Rightarrow>
          (case packageOfLine text of
             None \<Rightarrow> scanPackages rest packages
           | Some pkg \<Rightarrow> scanPackages rest (packages @ [pkg])))"
  by pat_completeness auto

termination scanPackages
  by (relation "measure (\<lambda>(input, packages). length input)")
    (auto simp: Scan_def Let_def split: if_splits)

declare scanPackages.simps [simp del]

definition packages ::
  "('d, 's) Adb \<Rightarrow> string \<Rightarrow> ListPackageOptions \<Rightarrow> 's \<Rightarrow> (Package list \<times> error option) \<times> 's" where
  "packages client deviceId opts s =
     (let device = getDevice client deviceId
      in if device = None then (([], Some (Error ''device not found'')), s)
         else let args = [''-f''];
                  args = (if IncludeUninstalled opts then args @ [''-u''] else args);
                  args = (if IncludeSystem opts then args @ [''-s''] else args @ [''-3'']);
                  ((out, err), s') = RunCommand client device ''pm list packages'' args s
              in if err \<noteq> None then (([], err), s') else (scanPackages out [], s'))"

section \<open>Device enumeration (adb-client.go, devices)\<close>

definition getDeviceManufacturer ::
  "('d, 's) Adb \<Rightarrow> 'd option \<Rightarrow> 's \<Rightarrow> (string \<times> error option) \<times> 's" where
  "getDeviceManufacturer client device s =
     (let ((manufacturer, err), s') =
            RunCommand client device ''getprop'' [''ro.product.manufacturer''] s
      in if err \<noteq> None then (('''', err), s') else ((TrimSpace manufacturer, None), s'))"

text \<open>
  The body of the loop over the device list: the \<^verbatim>\<open>models.Device\<close> appended for one
  \<^verbatim>\<open>deviceInfo\<close>, and the transport after the queries made for it.
\<close>

definition deviceOf :: "('d, 's) Adb \<Rightarrow> DeviceInfo \<Rightarrow> 's \<Rightarrow> Device \<times> 's" where
  "deviceOf client deviceInfo s =
     (let device = getDevice client (DeviceInfo.Serial deviceInfo);
          ((deviceState, stateErr), s1) = DeviceGetState client device s;
          ((deviceState, deviceManufacturer), s2) =
            (if stateErr \<noteq> None then ((StateInvalid, ''''), s1)
             else let ((manufacturer, _), s2) = getDeviceManufacturer client device s1
                  in ((deviceState, manufacturer), s2));
          deviceManufacturer =
            (if deviceManufacturer = '''' then ''Unknown'' else deviceManufacturer);
          standardizedState = convertState deviceState
      in (\<lparr>Device.Serial = DeviceInfo.Serial deviceInfo,
           State = standardizedState,
           Model = DeviceInfo.Model deviceInfo,
           Manufacturer = deviceManufacturer,
           IsAuthorized = (standardizedState = DeviceStateOnline)\<rparr>, s2))"

fun devicesLoop ::
  "('d, 's) Adb \<Rightarrow> DeviceInfo list \<Rightarrow> Device list \<Rightarrow> 's \<Rightarrow> Device list \<times> 's" where
  "devicesLoop client [] devicesList s = (devicesList, s)"
| "devicesLoop client (deviceInfo # rest) devicesList s =
     (let (device, s') = deviceOf client deviceInfo s
      in devicesLoop client rest (devicesList @ [device]) s')"

definition devices :: "('d, 's) Adb \<Rightarrow> 's \<Rightarrow> (Device list \<times> error option) \<times> 's" where
  "devices client s =
     (let ((devs, err), s') = ListDevices client s
      in if err \<noteq> None then (([], err), s')
         else let (devicesList, s'') = devicesLoop client devs [] s'
              in ((devicesList, None), s''))"

section \<open>The state watcher (adb-client.go, TrackDeviceStates)\<close>

text \<open>
  The goroutine of \<^verbatim>\<open>TrackDeviceStates\<close> is a loop around a \<^verbatim>\<open>select\<close>; for an event of the
  watched serial a second \<^verbatim>\<open>select\<close> sends the change or sees the context done. A run of the
  goroutine is the list of its completed iterations, each given by the cases its selects
  took: the context was done, the upstream channel was closed (\<^verbatim>\<open>ok\<close> false), or an event
  arrived, with the reading of \<^verbatim>\<open>time.Now()\<close> and the case the second select would take. At
  the end of the list the goroutine waits in the first select. What the consumer can see
  of the run is the list of operations on \<^verbatim>\<open>stateChannel\<close>.
\<close>

datatype delivery = Delivered | DoneWhileSending

datatype watch_step =
    CtxDone
  | UpstreamClosed
  | Upstream DeviceStateChangedEvent Time delivery

datatype chan_op = Send DeviceStateChange | Close

fun trackLoop :: "string \<Rightarrow> watch_step list \<Rightarrow> chan_op list" where
  "trackLoop deviceSerial [] = []"
| "trackLoop deviceSerial (CtxDone # run) = [Close]"
| "trackLoop deviceSerial (UpstreamClosed # run) = [Close]"
| "trackLoop deviceSerial (Upstream watcher now sel # run) =
     (if DeviceStateChangedEvent.Serial watcher = deviceSerial then
        (let stateChange =
               \<lparr>DeviceStateChange.Serial = deviceSerial,
                OldState = convertState (DeviceStateChangedEvent.OldState watcher),
                NewState = convertState (DeviceStateChangedEvent.NewState watcher),
                Timestamp = now\<rparr>
         in case sel of
              Delivered \<Rightarrow> Send stateChange # trackLoop deviceSerial run
            | DoneWhileSending \<Rightarrow> [Close])
      else trackLoop deviceSerial run)"

definition TrackDeviceStates :: "string \<Rightarrow> watch_step list \<Rightarrow> chan_op list \<times> error option" where
  "TrackDeviceStates deviceSerial run = (trackLoop deviceSerial run, None)"

text \<open>
  The steps at which the watcher's loop returns: the two termination triggers, the
  cancellation being seen by either select.
\<close>

fun terminating :: "string \<Rightarrow> watch_step \<Rightarrow> bool" where
  "terminating deviceSerial CtxDone = True"
| "terminating deviceSerial UpstreamClosed = True"
| "terminating deviceSerial (Upstream watcher now sel) =
     (DeviceStateChangedEvent.Serial watcher = deviceSerial \<and> sel = DoneWhileSending)"

text \<open>
  What the specification expects of one upstream event: nothing for another serial, one
  change with normalised states and the time stamp for the watched serial.
\<close>

fun expectedChanges :: "string \<Rightarrow> watch_step \<Rightarrow> DeviceStateChange list" where
  "expectedChanges X (Upstream ev now sel) =
     (if DeviceStateChangedEvent.Serial ev = X
      then [\<lparr>DeviceStateChange.Serial = X,
             OldState = convertState (DeviceStateChangedEvent.OldState ev),
             NewState = convertState (DeviceStateChangedEvent.NewState ev),
             Timestamp = now\<rparr>]
      else [])"
| "expectedChanges X _ = []"

section \<open>Transports and runs used as examples\<close>

text \<open>
  A transport with three devices whose second device does not answer the state query.
  Its state is the log of what it was asked: the serial of the device and the command
  with its arguments.
\<close>

definition threeDevices :: "(string, (string \<times> string list) list) Adb" where
  "threeDevices =
     \<lparr>ListDevices = (\<lambda>s.
        (([\<lparr>DeviceInfo.Serial = ''A1'', Model = ''Pixel''\<rparr>,
           \<lparr>DeviceInfo.Serial = ''B2'', Model = ''Nexus''\<rparr>,
           \<lparr>DeviceInfo.Serial = ''C3'', Model = ''Moto''\<rparr>], None),
         s @ [('''', [''devices''])])),
      DeviceWithSerial = Some,
      DeviceGetState = (\<lambda>d s.
        (if d = Some ''B2'' then (StateInvalid, Some (Error ''no answer''))
         else if d = Some ''C3'' then (StateUnauthorized, None)
         else (StateOnline, None),
         s @ [(case d of None \<Rightarrow> '''' | Some serial \<Rightarrow> serial, [''get-state''])])),
      RunCommand = (\<lambda>d cmd args s.
        ((if cmd = ''getprop'' then '' Acme '' else ''package:/data/app/x.apk=com.x'', None),
         s @ [(case d of None \<Rightarrow> '''' | Some serial \<Rightarrow> serial, cmd # args)]))\<rparr>"


section \<open>Properties of state normalisation\<close>

lemmas DeviceState_defs =
  DeviceStateOffline_def DeviceStateBooting_def DeviceStateUnauthorized_def
  DeviceStateOnline_def DeviceStateUnknown_def

lemma convertState_cases:
  "convertState st = (if st = StateOnline then DeviceStateOnline
     else if st = StateOffline then DeviceStateOffline
     else if st = StateUnauthorized then DeviceStateUnauthorized
     else DeviceStateUnknown)"
  by (cases st) simp_all


lemma convertState_not_Booting: "convertState st \<noteq> DeviceStateBooting"
  by (cases st) (simp_all add: DeviceState_defs)

text \<open>
  C3. convertState is a total function that returns Online, Offline and Unauthorized for
  the transport's online, offline and unauthorized states and Unknown for every other raw
  state, the invalid sentinel included; on the three recognised states it is a bijection
  onto the three canonical states.
\<close>

theorem convertState_total_bijection:
  "convertState StateOnline = DeviceStateOnline \<and>
   convertState StateOffline = DeviceStateOffline \<and>
   convertState StateUnauthorized = DeviceStateUnauthorized \<and>
   convertState StateInvalid = DeviceStateUnknown \<and>
   (\<forall>st. st \<notin> {StateOnline, StateOffline, StateUnauthorized} \<longrightarrow>
      convertState st = DeviceStateUnknown) \<and>
   bij_betw convertState {StateOnline, StateOffline, StateUnauthorized}
     {DeviceStateOnline, DeviceStateOffline, DeviceStateUnauthorized}"
proof -
  have other: "\<forall>st. st \<notin> {StateOnline, StateOffline, StateUnauthorized} \<longrightarrow>
      convertState st = DeviceStateUnknown"
    by (simp add: convertState_cases)
  have inj: "inj_on convertState {StateOnline, StateOffline, StateUnauthorized}"
    by (simp add: inj_on_def DeviceState_defs)
  have img: "convertState ` {StateOnline, StateOffline, StateUnauthorized} =
      {DeviceStateOnline, DeviceStateOffline, DeviceStateUnauthorized}"
    by simp
  from inj img have "bij_betw convertState {StateOnline, StateOffline, StateUnauthorized}
      {DeviceStateOnline, DeviceStateOffline, DeviceStateUnauthorized}"
    unfolding bij_betw_def by blast
  with other show ?thesis by simp
qed

theorem convertState_total_bijection_witness:
  "StateDisconnected \<notin> {StateOnline, StateOffline, StateUnauthorized} \<and>
   convertState StateDisconnected = ''unknown'' \<and>
   convertState StateOnline = ''online''"
  using convertState_total_bijection by (simp add: DeviceState_defs)

section \<open>Properties of the string functions and of the scanner\<close>

lemma HasPrefix_iff: "HasPrefix s p \<longleftrightarrow> (\<exists>r. s = p @ r)"
  unfolding HasPrefix_def
  by (metis append_eq_conv_conj append_take_drop_id)

lemma Contains_iff: "Contains s sub \<longleftrightarrow> (\<exists>pre post. s = pre @ sub @ post)"
proof (induction s)
  case Nil
  then show ?case by auto
next
  case (Cons c cs)
  show ?case
  proof
    assume "Contains (c # cs) sub"
    then consider "HasPrefix (c # cs) sub" | "Contains cs sub" by auto
    then show "\<exists>pre post. c # cs = pre @ sub @ post"
    proof cases
      case 1
      then obtain r where "c # cs = sub @ r" by (auto simp: HasPrefix_iff)
      then have "c # cs = [] @ sub @ r" by simp
      then show ?thesis by blast
    next
      case 2
      with Cons.IH obtain pre post where "cs = pre @ sub @ post" by blast
      then have "c # cs = (c # pre) @ sub @ post" by simp
      then show ?thesis by blast
    qed
  next
    assume "\<exists>pre post. c # cs = pre @ sub @ post"
    then obtain pre post where eq: "c # cs = pre @ sub @ post" by blast
    show "Contains (c # cs) sub"
    proof (cases pre)
      case Nil
      with eq have "HasPrefix (c # cs) sub" by (auto simp: HasPrefix_iff)
      then show ?thesis by simp
    next
      case (Cons p ps)
      with eq have "cs = ps @ sub @ post" by simp
      with Cons.IH have "Contains cs sub" by blast
      then show ?thesis by simp
    qed
  qed
qed

lemma HasPrefix_single: "HasPrefix (c # cs) [d] \<longleftrightarrow> c = d"
  by (simp add: HasPrefix_def)

lemma LastIndex_char_bounds: "- 1 \<le> LastIndex s [c] \<and> LastIndex s [c] < int (length s)"
  by (induction s) (auto simp: Let_def)

lemma LastIndex_char_none: "LastIndex s [c] = - 1 \<longleftrightarrow> c \<notin> set s"
proof (induction s)
  case Nil
  then show ?case by simp
next
  case (Cons a s)
  with LastIndex_char_bounds[of s c] show ?case
    by (auto simp: Let_def HasPrefix_single)
qed

lemma LastIndex_char_split:
  "pre @ c # post = s \<Longrightarrow> c \<notin> set post \<Longrightarrow> LastIndex s [c] = int (length pre)"
proof (induction pre arbitrary: s)
  case Nil
  then have "LastIndex post [c] = - 1" by (simp add: LastIndex_char_none)
  with Nil show ?case by (auto simp: Let_def HasPrefix_single)
next
  case (Cons p ps)
  then have "LastIndex (ps @ c # post) [c] = int (length ps)" by simp
  with Cons show ?case by (auto simp: Let_def)
qed

lemma LastIndex_char_found:
  assumes "0 \<le> LastIndex s [c]"
  shows "s = take (nat (LastIndex s [c])) s @ c # drop (nat (LastIndex s [c] + 1)) s \<and>
         c \<notin> set (drop (nat (LastIndex s [c] + 1)) s)"
  using assms
proof (induction s)
  case Nil
  then show ?case by simp
next
  case (Cons a s)
  show ?case
  proof (cases "0 \<le> LastIndex s [c]")
    case True
    with Cons.IH have IH: "s = take (nat (LastIndex s [c])) s @ c # drop (nat (LastIndex s [c] + 1)) s"
      "c \<notin> set (drop (nat (LastIndex s [c] + 1)) s)" by auto
    from True have L: "LastIndex (a # s) [c] = LastIndex s [c] + 1" by (simp add: Let_def)
    from True have n1: "nat (LastIndex s [c] + 1) = Suc (nat (LastIndex s [c]))" by simp
    from True have n2: "nat (LastIndex s [c] + 1 + 1) = Suc (nat (LastIndex s [c] + 1))" by simp
    show ?thesis unfolding L n2 unfolding n1 using IH n1 by simp
  next
    case False
    with LastIndex_char_bounds[of s c] have m: "LastIndex s [c] = - 1" by simp
    with Cons.prems have ac: "a = c" and L: "LastIndex (a # s) [c] = 0"
      by (auto simp: Let_def HasPrefix_single split: if_splits)
    from m have "c \<notin> set s" by (simp add: LastIndex_char_none)
    with ac L show ?thesis by simp
  qed
qed

lemma textLines_unfold:
  "input \<noteq> [] \<Longrightarrow>
   textLines input = takeWhile (\<lambda>c. c \<noteq> newline) input #
     textLines (drop (Suc (length (takeWhile (\<lambda>c. c \<noteq> newline) input))) input)"
proof (induction input)
  case Nil
  then show ?case by simp
next
  case (Cons c cs)
  show ?case
  proof (cases "c = newline")
    case True
    then show ?thesis by simp
  next
    case False
    show ?thesis
    proof (cases "cs = []")
      case True
      with False show ?thesis by simp
    next
      case ne: False
      with Cons.IH False show ?thesis by simp
    qed
  qed
qed

lemma scanPackages_lines:
  "\<forall>l \<in> set (textLines input). length l < MaxScanTokenSize \<Longrightarrow>
   scanPackages input acc = (acc @ List.map_filter packageOfLine (map dropCR (textLines input)), None)"
proof (induction input acc rule: scanPackages.induct)
  case (1 input packages)
  show ?case
  proof (cases "input = []")
    case True
    then show ?thesis by (simp add: scanPackages.simps[of "[]"] Scan_def)
  next
    case False
    let ?line = "takeWhile (\<lambda>c. c \<noteq> newline) input"
    let ?rest = "drop (Suc (length ?line)) input"
    from False have tl: "textLines input = ?line # textLines ?rest" by (rule textLines_unfold)
    with "1.prems" have short: "length ?line < MaxScanTokenSize"
      and rest: "\<forall>l \<in> set (textLines ?rest). length l < MaxScanTokenSize" by auto
    from False short have sc: "Scan input = Token (dropCR ?line) ?rest"
      by (simp add: Scan_def Let_def)
    show ?thesis
    proof (cases "packageOfLine (dropCR ?line)")
      case None
      with "1.IH"(1)[OF sc None rest] sc tl show ?thesis
        by (simp add: scanPackages.simps[of input])
    next
      case (Some pkg)
      with "1.IH"(2)[OF sc Some rest] sc tl show ?thesis
        by (simp add: scanPackages.simps[of input])
    qed
  qed
qed

lemma scanPackages_too_long:
  "\<exists>l \<in> set (textLines input). MaxScanTokenSize \<le> length l \<Longrightarrow>
   scanPackages input acc = ([], Some ErrTooLong)"
proof (induction input acc rule: scanPackages.induct)
  case (1 input packages)
  from "1.prems" have False: "input \<noteq> []" by auto
  let ?line = "takeWhile (\<lambda>c. c \<noteq> newline) input"
  let ?rest = "drop (Suc (length ?line)) input"
  from False have tl: "textLines input = ?line # textLines ?rest" by (rule textLines_unfold)
  show ?case
  proof (cases "MaxScanTokenSize \<le> length ?line")
    case True
    with False have "Scan input = ScanEnd (Some ErrTooLong)" by (simp add: Scan_def Let_def)
    then show ?thesis by (simp add: scanPackages.simps[of input])
  next
    case short: False
    with "1.prems" tl have rest: "\<exists>l \<in> set (textLines ?rest). MaxScanTokenSize \<le> length l" by auto
    from False short have sc: "Scan input = Token (dropCR ?line) ?rest"
      by (simp add: Scan_def Let_def)
    show ?thesis
    proof (cases "packageOfLine (dropCR ?line)")
      case None
      with "1.IH"(1)[OF sc None rest] sc show ?thesis
        by (simp add: scanPackages.simps[of input])
    next
      case (Some pkg)
      with "1.IH"(2)[OF sc Some rest] sc show ?thesis
        by (simp add: scanPackages.simps[of input])
    qed
  qed
qed


lemma set_dropSpaces: "set (dropSpaces encs s) \<subseteq> set s"
proof (induction encs s rule: dropSpaces.induct)
  case (1 encs)
  then show ?case by simp
next
  case (2 encs c cs)
  have d1: "set (drop 1 cs) \<subseteq> set cs" and d2: "set (drop 2 cs) \<subseteq> set cs"
    by (rule set_drop_subset)+
  from 2 d1 d2 show ?case by (simp del: drop_Suc_Cons) blast
qed

lemma set_TrimSpace: "set (TrimSpace s) \<subseteq> set s"
proof -
  have "set (TrimSpace s) \<subseteq> set (rev (dropSpaces unicodeSpace s))"
    unfolding TrimSpace_def using set_dropSpaces[of "map rev unicodeSpace" "rev (dropSpaces unicodeSpace s)"]
    by simp
  also have "\<dots> \<subseteq> set s" using set_dropSpaces[of unicodeSpace s] by simp
  finally show ?thesis .
qed

lemma packageOfLine_None_iff:
  "packageOfLine text = None \<longleftrightarrow>
     (TrimSpace text = '''' \<or> \<not> HasPrefix (TrimSpace text) ''package:'' \<or>
      CHR ''='' \<notin> set (TrimSpace text))"
  by (simp add: packageOfLine_def Let_def LastIndex_char_none)

lemma packageOfLine_Some:
  assumes line: "TrimSpace text = ''package:'' @ path @ ''='' @ name"
    and last: "CHR ''='' \<notin> set name"
  shows "packageOfLine text =
    Some \<lparr>Name = TrimSpace name, ApkPath = path, IsSystem = Contains path ''/system/''\<rparr>"
proof -
  let ?line = "TrimSpace text"
  have split: "(''package:'' @ path) @ CHR ''='' # name = ?line" using line by simp
  have idx: "LastIndex ?line ''='' = int (length (''package:'' @ path))"
    using LastIndex_char_split[OF split last] .
  have pre: "HasPrefix ?line ''package:''" using line by (simp add: HasPrefix_iff)
  have ne: "?line \<noteq> ''''" using line by simp
  have tk: "take (nat (LastIndex ?line ''='')) ?line = ''package:'' @ path"
    unfolding idx using split by (metis append_eq_conv_conj nat_int)
  have dr: "drop (nat (LastIndex ?line ''='' + 1)) ?line = name"
  proof -
    have "nat (LastIndex ?line ''='' + 1) = length ((''package:'' @ path) @ ''='')"
      unfolding idx by simp
    moreover have "?line = ((''package:'' @ path) @ ''='') @ name" using line by simp
    ultimately show ?thesis by (metis append_eq_conv_conj)
  qed
  have tp: "TrimPrefix (''package:'' @ path) ''package:'' = path"
    by (simp add: TrimPrefix_def HasPrefix_def)
  have i0: "LastIndex ?line ''='' \<noteq> - 1" unfolding idx by simp
  show ?thesis
    unfolding packageOfLine_def Let_def
    using pre ne i0 by (simp only: tk dr tp if_False simp_thms)
qed

lemma packageOfLine_SomeD:
  assumes "packageOfLine text = Some p"
  shows "\<exists>path name. TrimSpace text = ''package:'' @ path @ ''='' @ name \<and>
           CHR ''='' \<notin> set name \<and>
           p = \<lparr>Name = TrimSpace name, ApkPath = path, IsSystem = Contains path ''/system/''\<rparr>"
proof -
  let ?line = "TrimSpace text"
  from assms have "packageOfLine text \<noteq> None" by simp
  then have pre: "HasPrefix ?line ''package:''" and eq: "CHR ''='' \<in> set ?line"
    by (auto simp: packageOfLine_None_iff)
  from pre obtain r where r: "?line = ''package:'' @ r" by (auto simp: HasPrefix_iff)
  with eq have "CHR ''='' \<in> set r" by auto
  then obtain path name where pn: "r = path @ CHR ''='' # name" "CHR ''='' \<notin> set name"
    by (meson split_list_last)
  with r have line: "?line = ''package:'' @ path @ ''='' @ name" by simp
  from packageOfLine_Some[OF line pn(2)] assms line pn(2) show ?thesis by auto
qed

lemma scanPackages_inv:
  assumes "\<And>text p. packageOfLine text = Some p \<Longrightarrow> Q p"
  shows "\<forall>p \<in> set acc. Q p \<Longrightarrow> \<forall>p \<in> set (fst (scanPackages input acc)). Q p"
proof (induction input acc rule: scanPackages.induct)
  case (1 input packages)
  show ?case
  proof (cases "Scan input")
    case (Token tok rest)
    show ?thesis
    proof (cases "packageOfLine tok")
      case None
      with "1.IH"(1)[OF Token None "1.prems"] Token show ?thesis
        by (simp add: scanPackages.simps[of input])
    next
      case (Some pkg)
      from assms[OF Some] "1.prems" have "\<forall>p \<in> set (packages @ [pkg]). Q p" by auto
      with "1.IH"(2)[OF Token Some] Token Some show ?thesis
        by (simp add: scanPackages.simps[of input])
    qed
  next
    case (ScanEnd e)
    with "1.prems" show ?thesis
      by (cases e) (simp_all add: scanPackages.simps[of input])
  qed
qed


lemma packageOfLine_IsSystem:
  "packageOfLine line = Some p \<Longrightarrow> IsSystem p = Contains (ApkPath p) ''/system/''"
  by (auto dest: packageOfLine_SomeD)

lemma textLines_long_first:
  "c \<noteq> newline \<Longrightarrow> textLines (replicate n c @ newline # rest) = replicate n c # textLines rest"
  by (induction n) auto

section \<open>The package parser, line by line\<close>

text \<open>
  C4, as amended. For every input text whose lines are all shorter than the scanner's
  buffer (65536 bytes), the parser handles each line on its own: the result is the list of
  the packages of the single lines, in order. A line gives no package exactly when, after
  trimming, it is empty, lacks the prefix \<^verbatim>\<open>package:\<close> or has no \<^verbatim>\<open>=\<close>; a line that gives a
  package is \<^verbatim>\<open>package:\<close>, the APK path, the last \<^verbatim>\<open>=\<close> and the name, which is trimmed. When a
  line reaches 65536 bytes the scanner stops with \<^verbatim>\<open>ErrTooLong\<close> and no package is
  returned.
\<close>

theorem scanPackages_line_by_line:
  "((\<forall>l \<in> set (textLines out). length l < MaxScanTokenSize) \<longrightarrow>
      scanPackages out [] =
        (List.map_filter packageOfLine (map dropCR (textLines out)), None)) \<and>
   ((\<exists>l \<in> set (textLines out). MaxScanTokenSize \<le> length l) \<longrightarrow>
      scanPackages out [] = ([], Some ErrTooLong)) \<and>
   (\<forall>line. packageOfLine line = None \<longleftrightarrow>
      (TrimSpace line = '''' \<or> (\<nexists>r. TrimSpace line = ''package:'' @ r) \<or>
       CHR ''='' \<notin> set (TrimSpace line))) \<and>
   (\<forall>line p. packageOfLine line = Some p \<longrightarrow>
      (\<exists>path name. TrimSpace line = ''package:'' @ path @ ''='' @ name \<and>
         CHR ''='' \<notin> set name \<and> ApkPath p = path \<and> Name p = TrimSpace name))"
proof -
  have a: "(\<forall>l \<in> set (textLines out). length l < MaxScanTokenSize) \<longrightarrow>
      scanPackages out [] =
        (List.map_filter packageOfLine (map dropCR (textLines out)), None)"
    using scanPackages_lines[of out "[]"] by simp
  have b: "(\<exists>l \<in> set (textLines out). MaxScanTokenSize \<le> length l) \<longrightarrow>
      scanPackages out [] = ([], Some ErrTooLong)"
    using scanPackages_too_long[of out "[]"] by blast
  have c: "\<forall>line. packageOfLine line = None \<longleftrightarrow>
      (TrimSpace line = '''' \<or> (\<nexists>r. TrimSpace line = ''package:'' @ r) \<or>
       CHR ''='' \<notin> set (TrimSpace line))"
    by (simp add: packageOfLine_None_iff HasPrefix_iff)
  have d: "\<forall>line p. packageOfLine line = Some p \<longrightarrow>
      (\<exists>path name. TrimSpace line = ''package:'' @ path @ ''='' @ name \<and>
         CHR ''='' \<notin> set name \<and> ApkPath p = path \<and> Name p = TrimSpace name)"
  proof (intro allI impI)
    fix line p
    assume "packageOfLine line = Some p"
    from packageOfLine_SomeD[OF this] obtain path name where
      "TrimSpace line = ''package:'' @ path @ ''='' @ name" "CHR ''='' \<notin> set name"
      "p = \<lparr>Name = TrimSpace name, ApkPath = path, IsSystem = Contains path ''/system/''\<rparr>"
      by blast
    then show "\<exists>path name. TrimSpace line = ''package:'' @ path @ ''='' @ name \<and>
         CHR ''='' \<notin> set name \<and> ApkPath p = path \<and> Name p = TrimSpace name"
      by auto
  qed
  from a b c d show ?thesis by blast
qed

theorem scanPackages_line_by_line_witness:
  "list_all (\<lambda>l. length l < MaxScanTokenSize)
     (textLines ''junk\<newline>package:/a=b=c.apk= x \<newline>package:nothing'') \<and>
   scanPackages ''junk\<newline>package:/a=b=c.apk= x \<newline>package:nothing'' [] =
     ([\<lparr>Name = ''x'', ApkPath = ''/a=b=c.apk'', IsSystem = False\<rparr>], None)"
  using scanPackages_line_by_line[of "''junk\<newline>package:/a=b=c.apk= x \<newline>package:nothing''"]
  by (simp add: newline_def MaxScanTokenSize_def dropCR_def List.map_filter_simps
      packageOfLine_def TrimSpace_def unicodeSpace_def asciiSpace_def HasPrefix_def TrimPrefix_def Let_def)

text \<open>
  The claim as stated, for every input text, fails on a text with an overlong line: the
  line lacks the prefix, so it should be skipped, but the package of the other line, which
  parses on its own, is lost with it.
\<close>

theorem scanPackages_long_line_counterexample:
  "scanPackages ''package:/a=b'' [] = ([\<lparr>Name = ''b'', ApkPath = ''/a'', IsSystem = False\<rparr>], None) \<and>
   packageOfLine (replicate 70000 (CHR ''x'')) = None \<and>
   scanPackages (replicate 70000 (CHR ''x'') @ ''\<newline>package:/a=b'') [] = ([], Some ErrTooLong)"
proof -
  have short: "\<forall>l \<in> set (textLines ''package:/a=b''). length l < MaxScanTokenSize"
    by (simp add: newline_def MaxScanTokenSize_def)
  have one: "scanPackages ''package:/a=b'' [] =
      ([\<lparr>Name = ''b'', ApkPath = ''/a'', IsSystem = False\<rparr>], None)"
    using scanPackages_lines[OF short, of "[]"]
    by (simp add: newline_def dropCR_def List.map_filter_simps packageOfLine_def TrimSpace_def
        unicodeSpace_def asciiSpace_def HasPrefix_def TrimPrefix_def Let_def)
  have "CHR ''='' \<notin> set (TrimSpace (replicate 70000 (CHR ''x'')))"
    using set_TrimSpace[of "replicate 70000 (CHR ''x'')"] by auto
  then have two: "packageOfLine (replicate 70000 (CHR ''x'')) = None"
    by (simp add: packageOfLine_None_iff)
  have "textLines (replicate 70000 (CHR ''x'') @ newline # ''package:/a=b'') =
      replicate 70000 (CHR ''x'') # textLines ''package:/a=b''"
    by (rule textLines_long_first) (simp add: newline_def)
  then have "\<exists>l \<in> set (textLines (replicate 70000 (CHR ''x'') @ ''\<newline>package:/a=b'')).
      MaxScanTokenSize \<le> length l"
    by (simp add: newline_def MaxScanTokenSize_def)
  then have three: "scanPackages (replicate 70000 (CHR ''x'') @ ''\<newline>package:/a=b'') [] =
      ([], Some ErrTooLong)"
    by (rule scanPackages_too_long)
  from one two three show ?thesis by simp
qed

text \<open>
  C5. For every parsed package, isSystem is true exactly when the APK path contains the
  segment \<^verbatim>\<open>/system/\<close>; the two example lines of the specification parse to the records it
  gives.
\<close>

theorem IsSystem_iff_system_segment:
  "(\<forall>p \<in> set (fst (scanPackages out [])).
      IsSystem p \<longleftrightarrow> (\<exists>pre post. ApkPath p = pre @ ''/system/'' @ post)) \<and>
   scanPackages ''package:/data/app/com.acme.app-1/base.apk=com.acme.app'' [] =
     ([\<lparr>Name = ''com.acme.app'', ApkPath = ''/data/app/com.acme.app-1/base.apk'',
        IsSystem = False\<rparr>], None) \<and>
   scanPackages ''package:/system/app/Settings/Settings.apk=com.android.settings'' [] =
     ([\<lparr>Name = ''com.android.settings'', ApkPath = ''/system/app/Settings/Settings.apk'',
        IsSystem = True\<rparr>], None)"
proof -
  have "\<forall>p \<in> set (fst (scanPackages out [])). IsSystem p = Contains (ApkPath p) ''/system/''"
    by (rule scanPackages_inv) (auto dest: packageOfLine_IsSystem)
  then have gen: "\<forall>p \<in> set (fst (scanPackages out [])).
      IsSystem p \<longleftrightarrow> (\<exists>pre post. ApkPath p = pre @ ''/system/'' @ post)"
    by (simp add: Contains_iff)
  have s1: "\<forall>l \<in> set (textLines ''package:/data/app/com.acme.app-1/base.apk=com.acme.app'').
      length l < MaxScanTokenSize"
    by (simp add: newline_def MaxScanTokenSize_def)
  have e1: "scanPackages ''package:/data/app/com.acme.app-1/base.apk=com.acme.app'' [] =
     ([\<lparr>Name = ''com.acme.app'', ApkPath = ''/data/app/com.acme.app-1/base.apk'',
        IsSystem = False\<rparr>], None)"
    using scanPackages_lines[OF s1, of "[]"]
    by (simp add: newline_def dropCR_def List.map_filter_simps packageOfLine_def TrimSpace_def
        unicodeSpace_def asciiSpace_def HasPrefix_def TrimPrefix_def Let_def)
  have s2: "\<forall>l \<in> set (textLines ''package:/system/app/Settings/Settings.apk=com.android.settings'').
      length l < MaxScanTokenSize"
    by (simp add: newline_def MaxScanTokenSize_def)
  have e2: "scanPackages ''package:/system/app/Settings/Settings.apk=com.android.settings'' [] =
     ([\<lparr>Name = ''com.android.settings'', ApkPath = ''/system/app/Settings/Settings.apk'',
        IsSystem = True\<rparr>], None)"
    using scanPackages_lines[OF s2, of "[]"]
    by (simp add: newline_def dropCR_def List.map_filter_simps packageOfLine_def TrimSpace_def
        unicodeSpace_def asciiSpace_def HasPrefix_def TrimPrefix_def Let_def)
  from gen e1 e2 show ?thesis by blast
qed

theorem IsSystem_iff_system_segment_witness:
  "\<lparr>Name = ''c'', ApkPath = ''/data/system/b.apk'', IsSystem = True\<rparr>
     \<in> set (fst (scanPackages ''package:/data/system/b.apk=c'' [])) \<and>
   (\<exists>pre post. ''/data/system/b.apk'' = pre @ ''/system/'' @ post)"
proof -
  have s1: "\<forall>l \<in> set (textLines ''package:/data/system/b.apk=c''). length l < MaxScanTokenSize"
    by (simp add: newline_def MaxScanTokenSize_def)
  have mem: "\<lparr>Name = ''c'', ApkPath = ''/data/system/b.apk'', IsSystem = True\<rparr>
     \<in> set (fst (scanPackages ''package:/data/system/b.apk=c'' []))"
    using scanPackages_lines[OF s1, of "[]"]
    by (simp add: newline_def dropCR_def List.map_filter_simps packageOfLine_def TrimSpace_def
        unicodeSpace_def asciiSpace_def HasPrefix_def TrimPrefix_def Let_def)
  with IsSystem_iff_system_segment[of "''package:/data/system/b.apk=c''"]
  have "IsSystem \<lparr>Name = ''c'', ApkPath = ''/data/system/b.apk'', IsSystem = True\<rparr> \<longleftrightarrow>
    (\<exists>pre post. ApkPath \<lparr>Name = ''c'', ApkPath = ''/data/system/b.apk'', IsSystem = True\<rparr> =
       pre @ ''/system/'' @ post)"
    by blast
  with mem show ?thesis by simp
qed

text \<open>
  C6. For every ListPackageOptions value the command \<^verbatim>\<open>pm list packages\<close> is run with
  exactly: \<^verbatim>\<open>-f\<close>, then \<^verbatim>\<open>-u\<close> if and only if includeUninstalled is set, then \<^verbatim>\<open>-s\<close> if
  includeSystem is set and \<^verbatim>\<open>-3\<close> otherwise. The theorem holds for every transport, so the
  arguments are what any transport receives; without a device handle no command is run.
\<close>

theorem packages_argument_list:
  "(getDevice client deviceId \<noteq> None \<longrightarrow>
      packages client deviceId opts s =
        (let ((out, err), s') =
               RunCommand client (getDevice client deviceId) ''pm list packages''
                 (''-f'' # (if IncludeUninstalled opts then [''-u''] else []) @
                    [if IncludeSystem opts then ''-s'' else ''-3'']) s
         in if err \<noteq> None then (([], err), s') else (scanPackages out [], s'))) \<and>
   (getDevice client deviceId = None \<longrightarrow>
      packages client deviceId opts s = (([], Some (Error ''device not found'')), s))"
  by (simp add: packages_def Let_def)

theorem packages_argument_list_witness:
  "getDevice threeDevices ''A1'' \<noteq> None \<and>
   snd (packages threeDevices ''A1'' \<lparr>IncludeSystem = False, IncludeUninstalled = True\<rparr> []) =
     [(''A1'', [''pm list packages'', ''-f'', ''-u'', ''-3''])] \<and>
   snd (packages threeDevices ''A1'' \<lparr>IncludeSystem = True, IncludeUninstalled = False\<rparr> []) =
     [(''A1'', [''pm list packages'', ''-f'', ''-s''])]"
  using packages_argument_list[of threeDevices "''A1''" "\<lparr>IncludeSystem = False, IncludeUninstalled = True\<rparr>" "[]"]
    packages_argument_list[of threeDevices "''A1''" "\<lparr>IncludeSystem = True, IncludeUninstalled = False\<rparr>" "[]"]
  by (simp add: getDevice_def threeDevices_def)


section \<open>Properties of the device enumeration\<close>

lemma devicesLoop_acc:
  "devicesLoop client infos acc s =
     (acc @ fst (devicesLoop client infos [] s), snd (devicesLoop client infos [] s))"
proof (induction infos arbitrary: acc s)
  case Nil
  then show ?case by simp
next
  case (Cons info infos)
  obtain d s' where d: "deviceOf client info s = (d, s')" by (cases "deviceOf client info s")
  have "devicesLoop client (info # infos) acc s = devicesLoop client infos (acc @ [d]) s'"
    using d by simp
  also have "\<dots> = ((acc @ [d]) @ fst (devicesLoop client infos [] s'),
      snd (devicesLoop client infos [] s'))"
    by (rule Cons.IH)
  also have "\<dots> = (acc @ fst (devicesLoop client infos [d] s'),
      snd (devicesLoop client infos [d] s'))"
    using Cons.IH[of "[d]" s'] by simp
  also have "\<dots> = (acc @ fst (devicesLoop client (info # infos) [] s),
      snd (devicesLoop client (info # infos) [] s))"
    using d by simp
  finally show ?case .
qed

lemma devicesLoop_Cons:
  "devicesLoop client (info # infos) [] s =
     (fst (deviceOf client info s) # fst (devicesLoop client infos [] (snd (deviceOf client info s))),
      snd (devicesLoop client infos [] (snd (deviceOf client info s))))"
proof -
  obtain d s' where d: "deviceOf client info s = (d, s')" by (cases "deviceOf client info s")
  then have "devicesLoop client (info # infos) [] s = devicesLoop client infos [d] s'" by simp
  also have "\<dots> = ([d] @ fst (devicesLoop client infos [] s'), snd (devicesLoop client infos [] s'))"
    by (rule devicesLoop_acc)
  finally show ?thesis using d by simp
qed

lemma devicesLoop_length: "length (fst (devicesLoop client infos [] s)) = length infos"
  by (induction infos arbitrary: s) (simp_all add: devicesLoop_Cons del: devicesLoop.simps(2))

lemma devicesLoop_snoc:
  "snd (devicesLoop client (infos @ [info]) [] s) =
     snd (deviceOf client info (snd (devicesLoop client infos [] s)))"
  by (induction infos arbitrary: s) (simp_all add: devicesLoop_Cons del: devicesLoop.simps(2))

lemma devicesLoop_nth:
  "i < length infos \<Longrightarrow>
   fst (devicesLoop client infos [] s) ! i =
     fst (deviceOf client (infos ! i) (snd (devicesLoop client (take i infos) [] s)))"
proof (induction infos arbitrary: i s)
  case Nil
  then show ?case by simp
next
  case (Cons info infos)
  show ?case
  proof (cases i)
    case 0
    then show ?thesis by (simp add: devicesLoop_Cons del: devicesLoop.simps(2))
  next
    case (Suc j)
    with Cons.prems have "j < length infos" by simp
    from Cons.IH[OF this] Suc show ?thesis by (simp add: devicesLoop_Cons del: devicesLoop.simps(2))
  qed
qed

lemma devicesLoop_take_Suc:
  "i < length infos \<Longrightarrow>
   snd (devicesLoop client (take (Suc i) infos) [] s) =
     snd (deviceOf client (infos ! i) (snd (devicesLoop client (take i infos) [] s)))"
  by (simp add: take_Suc_conv_app_nth devicesLoop_snoc)

lemma convertState_Online_iff: "convertState st = DeviceStateOnline \<longleftrightarrow> st = StateOnline"
  by (cases st) (simp_all add: DeviceState_defs)

lemma deviceOf_state_failed:
  assumes "DeviceGetState client (getDevice client (DeviceInfo.Serial info)) s = ((st, Some e), s1)"
  shows "deviceOf client info s =
    (\<lparr>Device.Serial = DeviceInfo.Serial info, State = DeviceStateUnknown,
      Model = DeviceInfo.Model info, Manufacturer = ''Unknown'', IsAuthorized = False\<rparr>, s1)"
  using assms by (simp add: deviceOf_def Let_def DeviceState_defs)

lemma deviceOf_state_ok:
  assumes "DeviceGetState client (getDevice client (DeviceInfo.Serial info)) s = ((st, None), s1)"
    and "RunCommand client (getDevice client (DeviceInfo.Serial info)) ''getprop''
           [''ro.product.manufacturer''] s1 = ((m, mErr), s2)"
  shows "deviceOf client info s =
    (\<lparr>Device.Serial = DeviceInfo.Serial info, State = convertState st,
      Model = DeviceInfo.Model info,
      Manufacturer = (if mErr \<noteq> None \<or> TrimSpace m = '''' then ''Unknown'' else TrimSpace m),
      IsAuthorized = (st = StateOnline)\<rparr>, s2)"
  using assms
  by (simp add: deviceOf_def getDeviceManufacturer_def Let_def convertState_Online_iff)

lemma deviceOf_Serial_Model:
  "Device.Serial (fst (deviceOf client info s)) = DeviceInfo.Serial info \<and>
   Device.Model (fst (deviceOf client info s)) = DeviceInfo.Model info \<and>
   (\<exists>st. Device.State (fst (deviceOf client info s)) = convertState st)"
  by (auto simp: deviceOf_def Let_def split: prod.splits intro: convertState.simps(4)[symmetric])

lemma devices_ok:
  assumes "ListDevices client s = ((infos, None), s0)"
  shows "devices client s =
    ((fst (devicesLoop client infos [] s0), None), snd (devicesLoop client infos [] s0))"
  using assms by (simp add: devices_def Let_def split: prod.splits)

lemma devices_failed:
  assumes "ListDevices client s = ((infos, Some e), s0)"
  shows "devices client s = (([], Some e), s0)"
  using assms by (simp add: devices_def Let_def)

lemma devices_err_iff:
  "snd (fst (devices client s)) \<noteq> None \<longleftrightarrow> snd (fst (ListDevices client s)) \<noteq> None"
  by (auto simp: devices_def Let_def split: prod.splits)


section \<open>Enumeration with failing devices\<close>

text \<open>
  C1. When the base device list is retrieved, devices returns no error and exactly one
  Device per enumerated entry, in order, with the entry's serial and model. The record of
  entry \<open>i\<close> is settled by the answers to its own queries, asked of the transport as it is
  when the loop reaches the entry (\<open>before\<close>): when the state query fails, the state is
  Unknown, the manufacturer \<^verbatim>\<open>Unknown\<close>, isAuthorized false, and the transport is left as the
  state query left it, so no manufacturer was read; when it succeeds, the manufacturer
  property is read, an empty or failed read gives \<^verbatim>\<open>Unknown\<close>, and the record has the
  normalised state. The failure of one entry therefore changes no other record. devices
  fails exactly when the transport's device list fails.
\<close>

theorem devices_partial_failure:
  assumes list: "ListDevices client s = ((infos, None), s0)"
  shows "snd (fst (devices client s)) = None \<and>
    length (fst (fst (devices client s))) = length infos \<and>
    (\<forall>i < length infos.
       let info = infos ! i;
           d = fst (fst (devices client s)) ! i;
           before = snd (devicesLoop client (take i infos) [] s0);
           after = snd (devicesLoop client (take (Suc i) infos) [] s0);
           device = getDevice client (DeviceInfo.Serial info);
           ((st, stErr), s1) = DeviceGetState client device before;
           ((m, mErr), s2) = RunCommand client device ''getprop'' [''ro.product.manufacturer''] s1
       in Device.Serial d = DeviceInfo.Serial info \<and> Device.Model d = DeviceInfo.Model info \<and>
          (stErr \<noteq> None \<longrightarrow>
             Device.State d = DeviceStateUnknown \<and> Manufacturer d = ''Unknown'' \<and>
             \<not> IsAuthorized d \<and> after = s1) \<and>
          (stErr = None \<longrightarrow>
             Device.State d = convertState st \<and> IsAuthorized d = (st = StateOnline) \<and>
             Manufacturer d =
               (if mErr \<noteq> None \<or> TrimSpace m = '''' then ''Unknown'' else TrimSpace m) \<and>
             after = s2)) \<and>
    (\<forall>client' s'. snd (fst (devices client' s')) \<noteq> None \<longleftrightarrow>
       snd (fst (ListDevices (client' :: ('d, 's) Adb) s')) \<noteq> None)"
proof -
  note ok = devices_ok[OF list]
  have a: "snd (fst (devices client s)) = None" using ok by simp
  have b: "length (fst (fst (devices client s))) = length infos"
    using ok by (simp add: devicesLoop_length)
  have c: "\<forall>i < length infos.
       let info = infos ! i;
           d = fst (fst (devices client s)) ! i;
           before = snd (devicesLoop client (take i infos) [] s0);
           after = snd (devicesLoop client (take (Suc i) infos) [] s0);
           device = getDevice client (DeviceInfo.Serial info);
           ((st, stErr), s1) = DeviceGetState client device before;
           ((m, mErr), s2) = RunCommand client device ''getprop'' [''ro.product.manufacturer''] s1
       in Device.Serial d = DeviceInfo.Serial info \<and> Device.Model d = DeviceInfo.Model info \<and>
          (stErr \<noteq> None \<longrightarrow>
             Device.State d = DeviceStateUnknown \<and> Manufacturer d = ''Unknown'' \<and>
             \<not> IsAuthorized d \<and> after = s1) \<and>
          (stErr = None \<longrightarrow>
             Device.State d = convertState st \<and> IsAuthorized d = (st = StateOnline) \<and>
             Manufacturer d =
               (if mErr \<noteq> None \<or> TrimSpace m = '''' then ''Unknown'' else TrimSpace m) \<and>
             after = s2)"
  proof (intro allI impI)
    fix i assume i: "i < length infos"
    let ?info = "infos ! i"
    let ?before = "snd (devicesLoop client (take i infos) [] s0)"
    let ?device = "getDevice client (DeviceInfo.Serial ?info)"
    have d: "fst (fst (devices client s)) ! i = fst (deviceOf client ?info ?before)"
      using ok devicesLoop_nth[OF i] by simp
    have after: "snd (devicesLoop client (take (Suc i) infos) [] s0) =
        snd (deviceOf client ?info ?before)"
      by (rule devicesLoop_take_Suc[OF i])
    obtain st stErr s1 where q: "DeviceGetState client ?device ?before = ((st, stErr), s1)"
      by (metis surj_pair)
    obtain m mErr s2 where r:
      "RunCommand client ?device ''getprop'' [''ro.product.manufacturer''] s1 = ((m, mErr), s2)"
      by (metis surj_pair)
    show "let info = infos ! i;
           d = fst (fst (devices client s)) ! i;
           before = snd (devicesLoop client (take i infos) [] s0);
           after = snd (devicesLoop client (take (Suc i) infos) [] s0);
           device = getDevice client (DeviceInfo.Serial info);
           ((st, stErr), s1) = DeviceGetState client device before;
           ((m, mErr), s2) = RunCommand client device ''getprop'' [''ro.product.manufacturer''] s1
       in Device.Serial d = DeviceInfo.Serial info \<and> Device.Model d = DeviceInfo.Model info \<and>
          (stErr \<noteq> None \<longrightarrow>
             Device.State d = DeviceStateUnknown \<and> Manufacturer d = ''Unknown'' \<and>
             \<not> IsAuthorized d \<and> after = s1) \<and>
          (stErr = None \<longrightarrow>
             Device.State d = convertState st \<and> IsAuthorized d = (st = StateOnline) \<and>
             Manufacturer d =
               (if mErr \<noteq> None \<or> TrimSpace m = '''' then ''Unknown'' else TrimSpace m) \<and>
             after = s2)"
    proof (cases stErr)
      case None
      from deviceOf_state_ok[OF q[unfolded None] r] None q r d after show ?thesis
        by (simp add: Let_def)
    next
      case (Some e)
      from deviceOf_state_failed[OF q[unfolded Some]] Some q r d after show ?thesis
        by (simp add: Let_def)
    qed
  qed
  have e: "\<forall>client' s'. snd (fst (devices client' s')) \<noteq> None \<longleftrightarrow>
       snd (fst (ListDevices (client' :: ('d, 's) Adb) s')) \<noteq> None"
    using devices_err_iff by blast
  from a b c e show ?thesis by blast
qed

theorem devices_partial_failure_witness:
  "ListDevices threeDevices [] =
     (([\<lparr>DeviceInfo.Serial = ''A1'', Model = ''Pixel''\<rparr>,
        \<lparr>DeviceInfo.Serial = ''B2'', Model = ''Nexus''\<rparr>,
        \<lparr>DeviceInfo.Serial = ''C3'', Model = ''Moto''\<rparr>], None), [('''', [''devices''])]) \<and>
   length (fst (fst (devices threeDevices []))) = 3 \<and>
   Device.State (fst (fst (devices threeDevices [])) ! 1) = ''unknown'' \<and>
   Manufacturer (fst (fst (devices threeDevices [])) ! 1) = ''Unknown'' \<and>
   IsAuthorized (fst (fst (devices threeDevices [])) ! 1) = False \<and>
   Device.State (fst (fst (devices threeDevices [])) ! 0) = ''online'' \<and>
   Manufacturer (fst (fst (devices threeDevices [])) ! 0) = ''Acme'' \<and>
   IsAuthorized (fst (fst (devices threeDevices [])) ! 0) = True \<and>
   Device.State (fst (fst (devices threeDevices [])) ! 2) = ''unauthorized'' \<and>
   Manufacturer (fst (fst (devices threeDevices [])) ! 2) = ''Acme''"
proof -
  let ?infos = "[\<lparr>DeviceInfo.Serial = ''A1'', Model = ''Pixel''\<rparr>,
        \<lparr>DeviceInfo.Serial = ''B2'', Model = ''Nexus''\<rparr>,
        \<lparr>DeviceInfo.Serial = ''C3'', Model = ''Moto''\<rparr>]"
  have list: "ListDevices threeDevices [] = ((?infos, None), [('''', [''devices''])])"
    by (simp add: threeDevices_def)
  note t = devices_partial_failure[OF list]
  have len: "length (fst (fst (devices threeDevices []))) = 3"
    using t[THEN conjunct2, THEN conjunct1] by simp
  note ev = threeDevices_def getDevice_def deviceOf_def getDeviceManufacturer_def Let_def
    TrimSpace_def unicodeSpace_def asciiSpace_def DeviceState_defs
  note all = t[THEN conjunct2, THEN conjunct2, THEN conjunct1, rule_format]
  have d1: "Device.State (fst (fst (devices threeDevices [])) ! 1) = ''unknown'' \<and>
   Manufacturer (fst (fst (devices threeDevices [])) ! 1) = ''Unknown'' \<and>
   IsAuthorized (fst (fst (devices threeDevices [])) ! 1) = False"
    using all[of 1] by (simp add: ev)
  have d0: "Device.State (fst (fst (devices threeDevices [])) ! 0) = ''online'' \<and>
   Manufacturer (fst (fst (devices threeDevices [])) ! 0) = ''Acme'' \<and>
   IsAuthorized (fst (fst (devices threeDevices [])) ! 0) = True"
    using all[of 0] by (simp add: ev)
  have d2: "Device.State (fst (fst (devices threeDevices [])) ! 2) = ''unauthorized'' \<and>
   Manufacturer (fst (fst (devices threeDevices [])) ! 2) = ''Acme''"
    using all[of 2] by (simp add: ev numeral_2_eq_2)
  from list len d0 d1 d2 show ?thesis by simp
qed



lemma devicesLoop_States:
  "\<forall>d \<in> set (fst (devicesLoop client infos [] s)). \<exists>st. Device.State d = convertState st"
  by (induction infos arbitrary: s)
    (simp_all add: devicesLoop_Cons deviceOf_Serial_Model del: devicesLoop.simps(2))

lemma devices_States: "\<forall>d \<in> set (fst (fst (devices client s))). \<exists>st. Device.State d = convertState st"
proof (cases "ListDevices client s")
  case (Pair r s0)
  obtain infos err where r: "r = (infos, err)" by (cases r)
  show ?thesis
  proof (cases err)
    case None
    with Pair r devices_ok[of client s infos s0] devicesLoop_States[of client infos s0]
    show ?thesis by simp
  next
    case (Some e)
    with Pair r devices_failed[of client s infos e s0] show ?thesis by simp
  qed
qed

lemma trackLoop_Send:
  "Send c \<in> set (trackLoop X run) \<Longrightarrow>
   \<exists>old new now. c = \<lparr>DeviceStateChange.Serial = X,
       OldState = convertState old, NewState = convertState new, Timestamp = now\<rparr>"
  by (induction X run rule: trackLoop.induct) (auto simp: Let_def split: if_splits delivery.splits)




section \<open>Properties of the state watcher\<close>

lemma trackLoop_char:
  "trackLoop X run =
     map Send (concat (map (expectedChanges X) (takeWhile (\<lambda>st. \<not> terminating X st) run))) @
     (if \<exists>st \<in> set run. terminating X st then [Close] else [])"
  by (induction X run rule: trackLoop.induct) (auto simp: Let_def split: delivery.splits)

lemma trackLoop_running:
  "\<forall>st \<in> set run. \<not> terminating X st \<Longrightarrow>
   trackLoop X run = map Send (concat (map (expectedChanges X) run))"
proof -
  assume a: "\<forall>st \<in> set run. \<not> terminating X st"
  then have tw: "takeWhile (\<lambda>st. \<not> terminating X st) run = run"
    by (simp add: takeWhile_eq_all_conv)
  show ?thesis by (subst trackLoop_char) (simp add: a tw)
qed

lemma trackLoop_stop:
  assumes "\<forall>y \<in> set pre. \<not> terminating X y" and "terminating X st"
  shows "trackLoop X (pre @ st # post) = trackLoop X pre @ [Close]"
proof -
  from assms have "takeWhile (\<lambda>st. \<not> terminating X st) (pre @ st # post) = pre"
    by (simp add: takeWhile_append2)
  with assms show ?thesis by (simp add: trackLoop_char[of X "pre @ st # post"] trackLoop_running)
qed

lemma count_list_Send: "count_list (map Send xs) Close = 0"
  by (induction xs) simp_all

lemma trackLoop_Close_once: "count_list (trackLoop X run) Close \<le> 1"
  by (simp add: trackLoop_char count_list_Send)

lemma trackLoop_Close_iff: "Close \<in> set (trackLoop X run) \<longleftrightarrow> (\<exists>st \<in> set run. terminating X st)"
  by (auto simp: trackLoop_char)

lemma trackLoop_Close_last: "Close \<in> set (trackLoop X run) \<Longrightarrow> last (trackLoop X run) = Close"
  by (auto simp: trackLoop_char split: if_splits)

text \<open>
  C10. convertState never returns Booting; so no Device returned by devices and no
  DeviceStateChange sent by a watcher carries the Booting state.
\<close>

theorem Booting_never_produced:
  "(\<forall>st. convertState st \<noteq> DeviceStateBooting) \<and>
   (\<forall>d \<in> set (fst (fst (devices client s))). Device.State d \<noteq> DeviceStateBooting) \<and>
   (\<forall>c. Send c \<in> set (fst (TrackDeviceStates deviceSerial run)) \<longrightarrow>
      DeviceStateChange.OldState c \<noteq> DeviceStateBooting \<and>
      DeviceStateChange.NewState c \<noteq> DeviceStateBooting)"
proof -
  have a: "\<forall>st. convertState st \<noteq> DeviceStateBooting"
    by (simp add: convertState_not_Booting)
  have b: "\<forall>d \<in> set (fst (fst (devices client s))). Device.State d \<noteq> DeviceStateBooting"
    using devices_States[of client s] convertState_not_Booting by fastforce
  have c: "\<forall>c. Send c \<in> set (fst (TrackDeviceStates deviceSerial run)) \<longrightarrow>
      DeviceStateChange.OldState c \<noteq> DeviceStateBooting \<and>
      DeviceStateChange.NewState c \<noteq> DeviceStateBooting"
  proof (intro allI impI)
    fix c assume "Send c \<in> set (fst (TrackDeviceStates deviceSerial run))"
    then have "Send c \<in> set (trackLoop deviceSerial run)" by (simp add: TrackDeviceStates_def)
    from trackLoop_Send[OF this] show "DeviceStateChange.OldState c \<noteq> DeviceStateBooting \<and>
      DeviceStateChange.NewState c \<noteq> DeviceStateBooting"
      by (auto simp: convertState_not_Booting)
  qed
  from a b c show ?thesis by blast
qed

theorem Booting_never_produced_witness:
  "Send \<lparr>DeviceStateChange.Serial = ''X'', OldState = ''offline'', NewState = ''online'', Timestamp = 1\<rparr>
     \<in> set (fst (TrackDeviceStates ''X''
         [Upstream \<lparr>DeviceStateChangedEvent.Serial = ''X'', OldState = StateOffline, NewState = StateOnline\<rparr> 1 Delivered])) \<and>
   ''offline'' \<noteq> DeviceStateBooting \<and> ''online'' \<noteq> DeviceStateBooting \<and>
   list_all (\<lambda>d. Device.State d \<noteq> DeviceStateBooting) (fst (fst (devices threeDevices [])))"
proof -
  let ?run = "[Upstream \<lparr>DeviceStateChangedEvent.Serial = ''X'', OldState = StateOffline, NewState = StateOnline\<rparr> 1 Delivered]"
  let ?c = "\<lparr>DeviceStateChange.Serial = ''X'', OldState = ''offline'', NewState = ''online'', Timestamp = 1\<rparr>"
  note t = Booting_never_produced[of threeDevices "[]" "''X''" ?run]
  have mem: "Send ?c \<in> set (fst (TrackDeviceStates ''X'' ?run))"
    by (simp add: TrackDeviceStates_def DeviceState_defs)
  with t have "DeviceStateChange.OldState ?c \<noteq> DeviceStateBooting \<and>
      DeviceStateChange.NewState ?c \<noteq> DeviceStateBooting" by blast
  moreover from t have "list_all (\<lambda>d. Device.State d \<noteq> DeviceStateBooting)
      (fst (fst (devices threeDevices [])))"
    by (simp add: list_all_iff)
  ultimately show ?thesis using mem by simp
qed

text \<open>
  C7, as amended. For a watcher of serial X, the changes sent are those of the upstream
  events received before the watcher terminates, in upstream order: an event of another
  serial gives none, an event of serial X gives exactly one, with serial X, the normalised
  old and new states and the time read when the event is handled (just before the
  delivery is attempted). The watcher terminates when a select takes the cancellation
  signal or finds the upstream closed; an event of serial X whose delivery is pre-empted
  by the cancellation signal is not sent, and no event after the termination is.
\<close>

theorem watcher_filters_and_normalises:
  "fst (TrackDeviceStates X run) =
     map Send (concat (map (expectedChanges X) (takeWhile (\<lambda>st. \<not> terminating X st) run))) @
     (if list_ex (terminating X) run then [Close] else []) \<and>
   ((\<forall>st \<in> set run. \<not> terminating X st) \<longrightarrow>
      fst (TrackDeviceStates X run) = map Send (concat (map (expectedChanges X) run))) \<and>
   (\<forall>ev now sel. DeviceStateChangedEvent.Serial ev \<noteq> X \<longrightarrow>
      expectedChanges X (Upstream ev now sel) = []) \<and>
   (\<forall>ev now sel. DeviceStateChangedEvent.Serial ev = X \<longrightarrow>
      expectedChanges X (Upstream ev now sel) =
        [\<lparr>DeviceStateChange.Serial = X,
          OldState = convertState (DeviceStateChangedEvent.OldState ev),
          NewState = convertState (DeviceStateChangedEvent.NewState ev),
          Timestamp = now\<rparr>]) \<and>
   (\<forall>ev now sel. terminating X (Upstream ev now sel) \<longleftrightarrow>
      DeviceStateChangedEvent.Serial ev = X \<and> sel = DoneWhileSending)"
proof -
  have a: "fst (TrackDeviceStates X run) =
     map Send (concat (map (expectedChanges X) (takeWhile (\<lambda>st. \<not> terminating X st) run))) @
     (if list_ex (terminating X) run then [Close] else [])"
    using trackLoop_char[of X run] by (simp add: TrackDeviceStates_def list_ex_iff)
  have b: "(\<forall>st \<in> set run. \<not> terminating X st) \<longrightarrow>
      fst (TrackDeviceStates X run) = map Send (concat (map (expectedChanges X) run))"
    using trackLoop_running[of run X] by (simp add: TrackDeviceStates_def)
  from a b show ?thesis by simp
qed

theorem watcher_filters_and_normalises_witness:
  "list_all (\<lambda>st. \<not> terminating ''X'' st)
     [Upstream \<lparr>DeviceStateChangedEvent.Serial = ''X'', OldState = StateOffline, NewState = StateOnline\<rparr> 1 Delivered,
      Upstream \<lparr>DeviceStateChangedEvent.Serial = ''Y'', OldState = StateOnline, NewState = StateOffline\<rparr> 2 Delivered,
      Upstream \<lparr>DeviceStateChangedEvent.Serial = ''X'', OldState = StateOnline, NewState = StateDisconnected\<rparr> 3 Delivered] \<and>
   fst (TrackDeviceStates ''X''
     [Upstream \<lparr>DeviceStateChangedEvent.Serial = ''X'', OldState = StateOffline, NewState = StateOnline\<rparr> 1 Delivered,
      Upstream \<lparr>DeviceStateChangedEvent.Serial = ''Y'', OldState = StateOnline, NewState = StateOffline\<rparr> 2 Delivered,
      Upstream \<lparr>DeviceStateChangedEvent.Serial = ''X'', OldState = StateOnline, NewState = StateDisconnected\<rparr> 3 Delivered]) =
     [Send \<lparr>DeviceStateChange.Serial = ''X'', OldState = ''offline'', NewState = ''online'', Timestamp = 1\<rparr>,
      Send \<lparr>DeviceStateChange.Serial = ''X'', OldState = ''online'', NewState = ''unknown'', Timestamp = 3\<rparr>]"
  using watcher_filters_and_normalises[of "''X''"
     "[Upstream \<lparr>DeviceStateChangedEvent.Serial = ''X'', OldState = StateOffline, NewState = StateOnline\<rparr> 1 Delivered,
      Upstream \<lparr>DeviceStateChangedEvent.Serial = ''Y'', OldState = StateOnline, NewState = StateOffline\<rparr> 2 Delivered,
      Upstream \<lparr>DeviceStateChangedEvent.Serial = ''X'', OldState = StateOnline, NewState = StateDisconnected\<rparr> 3 Delivered]"]
  by (simp add: DeviceState_defs)

text \<open>
  The claim as stated, for every upstream event, fails under cancellation: an event of the
  watched serial whose delivery loses the race against the cancellation signal, and an
  event arriving after the cancellation, produce no DeviceStateChange.
\<close>

theorem watcher_cancelled_delivery_counterexample:
  "fst (TrackDeviceStates ''X''
     [Upstream \<lparr>DeviceStateChangedEvent.Serial = ''X'', OldState = StateOffline, NewState = StateOnline\<rparr> 1
        DoneWhileSending]) = [Close] \<and>
   fst (TrackDeviceStates ''X''
     [CtxDone,
      Upstream \<lparr>DeviceStateChangedEvent.Serial = ''X'', OldState = StateOffline, NewState = StateOnline\<rparr> 1
        Delivered]) = [Close]"
  by (simp add: TrackDeviceStates_def)

text \<open>
  C8. The output stream is closed exactly when the loop has taken a termination trigger:
  the cancellation signal (in either select) or the closure of the upstream channel, the
  latter without any cancellation. The stream is closed at the first trigger, whatever
  follows it in the run; the close happens at most once and nothing is sent after it, so
  the termination is final and the consumer sees it as the closed stream.
  \<^verbatim>\<open>TrackDeviceStates\<close> itself never returns an error.
\<close>

theorem watcher_closes_once:
  "(Close \<in> set (fst (TrackDeviceStates X run)) \<longleftrightarrow> list_ex (terminating X) run) \<and>
   (\<forall>pre st post. (\<forall>y \<in> set pre. \<not> terminating X y) \<and> terminating X st \<longrightarrow>
      fst (TrackDeviceStates X (pre @ st # post)) = fst (TrackDeviceStates X pre) @ [Close] \<and>
      Close \<notin> set (fst (TrackDeviceStates X pre))) \<and>
   count_list (fst (TrackDeviceStates X run)) Close \<le> 1 \<and>
   (Close \<in> set (fst (TrackDeviceStates X run)) \<longrightarrow> last (fst (TrackDeviceStates X run)) = Close) \<and>
   terminating X CtxDone \<and> terminating X UpstreamClosed \<and>
   (\<forall>ev now sel. terminating X (Upstream ev now sel) \<longleftrightarrow>
      DeviceStateChangedEvent.Serial ev = X \<and> sel = DoneWhileSending) \<and>
   snd (TrackDeviceStates X run) = None"
proof -
  have a: "Close \<in> set (fst (TrackDeviceStates X run)) \<longleftrightarrow> list_ex (terminating X) run"
    by (simp add: TrackDeviceStates_def trackLoop_Close_iff list_ex_iff)
  have b: "\<forall>pre st post. (\<forall>y \<in> set pre. \<not> terminating X y) \<and> terminating X st \<longrightarrow>
      fst (TrackDeviceStates X (pre @ st # post)) = fst (TrackDeviceStates X pre) @ [Close] \<and>
      Close \<notin> set (fst (TrackDeviceStates X pre))"
    by (simp add: TrackDeviceStates_def trackLoop_stop trackLoop_Close_iff)
  have c: "count_list (fst (TrackDeviceStates X run)) Close \<le> 1"
    using trackLoop_Close_once[of X run] by (simp add: TrackDeviceStates_def)
  have d: "Close \<in> set (fst (TrackDeviceStates X run)) \<longrightarrow>
      last (fst (TrackDeviceStates X run)) = Close"
    by (simp add: TrackDeviceStates_def trackLoop_Close_last)
  have e: "snd (TrackDeviceStates X run) = None" by (simp add: TrackDeviceStates_def)
  have f: "terminating X CtxDone \<and> terminating X UpstreamClosed \<and>
   (\<forall>ev now sel. terminating X (Upstream ev now sel) \<longleftrightarrow>
      DeviceStateChangedEvent.Serial ev = X \<and> sel = DoneWhileSending)" by simp
  from a b c d e f show ?thesis by blast
qed

theorem watcher_closes_once_witness:
  "list_all (\<lambda>y. \<not> terminating ''X'' y)
     [Upstream \<lparr>DeviceStateChangedEvent.Serial = ''X'', OldState = StateOffline, NewState = StateOnline\<rparr> 1 Delivered,
      Upstream \<lparr>DeviceStateChangedEvent.Serial = ''Y'', OldState = StateOnline, NewState = StateOffline\<rparr> 2 Delivered] \<and>
   terminating ''X'' UpstreamClosed \<and>
   fst (TrackDeviceStates ''X''
     ([Upstream \<lparr>DeviceStateChangedEvent.Serial = ''X'', OldState = StateOffline, NewState = StateOnline\<rparr> 1 Delivered,
       Upstream \<lparr>DeviceStateChangedEvent.Serial = ''Y'', OldState = StateOnline, NewState = StateOffline\<rparr> 2 Delivered] @
      UpstreamClosed #
      [Upstream \<lparr>DeviceStateChangedEvent.Serial = ''X'', OldState = StateOnline, NewState = StateOffline\<rparr> 3 Delivered,
       CtxDone])) =
     [Send \<lparr>DeviceStateChange.Serial = ''X'', OldState = ''offline'', NewState = ''online'', Timestamp = 1\<rparr>,
      Close]"
proof -
  let ?pre = "[Upstream \<lparr>DeviceStateChangedEvent.Serial = ''X'', OldState = StateOffline, NewState = StateOnline\<rparr> 1 Delivered,
      Upstream \<lparr>DeviceStateChangedEvent.Serial = ''Y'', OldState = StateOnline, NewState = StateOffline\<rparr> 2 Delivered]"
  let ?post = "[Upstream \<lparr>DeviceStateChangedEvent.Serial = ''X'', OldState = StateOnline, NewState = StateOffline\<rparr> 3 Delivered,
       CtxDone]"
  have pre: "\<forall>y \<in> set ?pre. \<not> terminating ''X'' y" by simp
  have st: "terminating ''X'' UpstreamClosed" by simp
  note t = watcher_closes_once[of "''X''" "[]", THEN conjunct2, THEN conjunct1, rule_format,
      of ?pre UpstreamClosed ?post]
  from t pre st have "fst (TrackDeviceStates ''X'' (?pre @ UpstreamClosed # ?post)) =
      fst (TrackDeviceStates ''X'' ?pre) @ [Close]" by blast
  then show ?thesis by (simp add: TrackDeviceStates_def DeviceState_defs)
qed

end
